theory Spec2Isabelle
  imports Main
begin

section \<open>Python values used by Main.py\<close>

text \<open>
  A Python \<open>str\<close> is a sequence of code points. The text of a page comes from outside
  the program and is written as the list of its code points, \<open>pystr\<close>; \<open>str_of\<close>
  gives the \<open>str\<close> of a literal. The statuses and messages of the program are literals
  and are written as Isabelle \<open>string\<close>s, whose characters are the code points below
  256; \<open>of_char\<close> reads the code point of a character. The exceptions are the
  subclasses of \<open>Exception\<close> that the calls of Main.py raise.
\<close>

type_synonym pystr = "nat list"

definition str_of :: "string \<Rightarrow> pystr" where
  "str_of s = map of_char s"

datatype exn =
    Timeout
  | ConnectionError
  | HTTPError nat
  | ParserError
  | IOError
  | ValueError
  | TypeError
  | UnicodeEncodeError
  | TelegramError
  | CancelledError

text \<open>\<open>requests.exceptions.RequestException\<close> and its subclasses (line 67).\<close>

fun is_RequestException :: "exn \<Rightarrow> bool" where
  "is_RequestException Timeout = True"
| "is_RequestException ConnectionError = True"
| "is_RequestException (HTTPError sc) = True"
| "is_RequestException e = False"

text \<open>
  \<open>str.lower()\<close>. The letters A-Z move up by 32 and every other code point below 128
  stays. The lower-case forms of the code points from 128 on come from the Unicode
  character database of the interpreter, which is not part of the program: the model
  takes them as a parameter \<open>low\<close>, where \<open>low before c after\<close> is the lower-case
  form of the code point \<open>c\<close> standing between the code points \<open>before\<close> and \<open>after\<close>
  (the form of the capital sigma depends on them). Two of them have a lower-case form with
  a code point below 128, and are written out: U+212A KELVIN SIGN gives \<open>k\<close>, and U+0130
  LATIN CAPITAL LETTER I WITH DOT ABOVE gives \<open>i\<close> followed by U+0307.
\<close>

type_synonym lowering = "pystr \<Rightarrow> nat \<Rightarrow> pystr \<Rightarrow> pystr"

definition lower_at :: "lowering \<Rightarrow> pystr \<Rightarrow> nat \<Rightarrow> pystr \<Rightarrow> pystr" where
  "lower_at low before c after =
     (if 65 \<le> c \<and> c \<le> 90 then [c + 32]
      else if c < 128 then [c]
      else if c = 0x212A then [0x6B]
      else if c = 0x130 then [0x69, 0x307]
      else low before c after)"

fun lower_from :: "lowering \<Rightarrow> pystr \<Rightarrow> pystr \<Rightarrow> pystr" where
  "lower_from low before [] = []"
| "lower_from low before (c # after) =
     lower_at low before c after @ lower_from low (before @ [c]) after"

definition lower :: "lowering \<Rightarrow> pystr \<Rightarrow> pystr" where
  "lower low s = lower_from low [] s"

text \<open>
  What the database guarantees of the forms it is asked for: the lower-case form of a
  code point from 128 on other than U+212A and U+0130 is not empty and has no code point
  below 128.
\<close>

definition unicode_lowering :: "lowering \<Rightarrow> bool" where
  "unicode_lowering low \<longleftrightarrow>
     (\<forall>before c after. 128 \<le> c \<and> c \<noteq> 0x212A \<and> c \<noteq> 0x130 \<longrightarrow>
        low before c after \<noteq> [] \<and> (\<forall>x\<in>set (low before c after). 128 \<le> x))"

text \<open>\<open>needle in haystack\<close> on strings: the needle occurs as a contiguous slice.\<close>

fun startswith :: "'a list \<Rightarrow> 'a list \<Rightarrow> bool" where
  "startswith cs [] = True"
| "startswith [] (k # ks) = False"
| "startswith (c # cs) (k # ks) = (c = k \<and> startswith cs ks)"

fun contains :: "'a list \<Rightarrow> 'a list \<Rightarrow> bool" where
  "contains [] needle = (needle = [])"
| "contains (c # cs) needle = (startswith (c # cs) needle \<or> contains cs needle)"

text \<open>
  \<open>str.strip()\<close>: leading and trailing white space is removed. On code points below
  256 Python's white space is U+0009-U+000D, U+001C-U+0020, U+0085 and U+00A0.
\<close>

definition is_space :: "char \<Rightarrow> bool" where
  "is_space c =
     (let n = (of_char c :: nat)
      in (9 \<le> n \<and> n \<le> 13) \<or> (28 \<le> n \<and> n \<le> 32) \<or> n = 133 \<or> n = 160)"

definition strip :: "string \<Rightarrow> string" where
  "strip s = rev (dropWhile is_space (rev (dropWhile is_space s)))"

section \<open>The availability check (lines 35-74)\<close>

text \<open>
  What the network answers to \<open>requests.get\<close> is an input of the model: the call
  raises, or it returns a response with a status code and a body. \<open>page\<close> is what
  \<open>BeautifulSoup(response.text, 'html.parser').text\<close> yields for that body: the text
  of the page, or the exception the parse raises.
\<close>

datatype response = Response (status_code: nat) (page: "exn + pystr")

datatype http_result = Failed exn | Fetched response

text \<open>
  \<open>Response.raise_for_status()\<close> of the requests library raises \<open>HTTPError\<close> for
  the client and server error codes, 400 to 599, and returns for every other code.
\<close>

definition raise_for_status :: "response \<Rightarrow> exn + unit" where
  "raise_for_status r =
     (if 400 \<le> status_code r \<and> status_code r < 600 then Inl (HTTPError (status_code r))
      else Inr ())"

definition ticket_keywords :: "pystr list" where
  "ticket_keywords = [str_of ''NEW YEAR'', str_of ''BUY TICKET'', str_of ''EVENT TICKET'']"

definition availability_indicators :: "lowering \<Rightarrow> pystr \<Rightarrow> bool" where
  "availability_indicators low soup_text =
     list_ex (\<lambda>keyword. contains (lower low soup_text) (lower low keyword)) ticket_keywords"

text \<open>Lines 60-65: the status for a page text.\<close>

definition classify :: "lowering \<Rightarrow> pystr \<Rightarrow> string" where
  "classify low soup_text =
     (if availability_indicators low soup_text then ''Tickets Potentially Available''
      else ''Tickets Not Available'')"

text \<open>The body of the \<open>try\<close> block, lines 37-65.\<close>

definition scrape :: "lowering \<Rightarrow> http_result \<Rightarrow> exn + string" where
  "scrape low h =
     (case h of
        Failed e \<Rightarrow> Inl e
      | Fetched r \<Rightarrow>
          (case raise_for_status r of
             Inl e \<Rightarrow> Inl e
           | Inr u \<Rightarrow>
               (case page r of
                  Inl e \<Rightarrow> Inl e
                | Inr soup_text \<Rightarrow> Inr (classify low soup_text))))"

text \<open>
  The two handlers, lines 67-74: the first takes the exceptions of the requests library,
  the second every other \<open>Exception\<close>; both return the status \<open>Error\<close>.
\<close>

definition check_ticket_availability :: "lowering \<Rightarrow> http_result \<Rightarrow> string" where
  "check_ticket_availability low h =
     (case scrape low h of
        Inr status \<Rightarrow> status
      | Inl e \<Rightarrow> (if is_RequestException e then ''Error'' else ''Error''))"

section \<open>The persisted files (lines 76-113)\<close>

text \<open>
  A file is absent (\<open>os.path.exists\<close> is false), present but unreadable (\<open>open\<close> or
  \<open>read\<close> raises), or holds a content.
\<close>

datatype 'a stored = Absent | Unreadable | Content 'a

text \<open>
  The content of the notification file is a text that \<open>datetime.fromisoformat\<close>
  rejects, the ISO form of a naive local time (the form that
  \<open>write_last_notification_time\<close> writes), or the ISO form of a time with a UTC offset.
  Times are counted in microseconds.
\<close>

datatype stamp = Malformed | Iso int | IsoOffset int

text \<open>
  A \<open>datetime\<close> value is naive or aware of its UTC offset; \<open>fromisoformat\<close> returns an
  aware one for a text with an offset.
\<close>

datatype datetime = Naive int | Aware int

text \<open>
  Writing a file succeeds, or \<open>open(..., "w")\<close> raises \<open>IOError\<close> and leaves the file
  as it was.
\<close>

datatype io_outcome = IoOk | IoError

datatype event =
    Fetch
  | NotifyCall string bool
  | SendMessage string
  | WriteStatus string
  | Sleep nat

record world =
  status_file :: "string stored"
  notification_file :: "stamp stored"
  trace :: "event list"

definition emit :: "event \<Rightarrow> world \<Rightarrow> world" where
  "emit e w = w\<lparr>trace := trace w @ [e]\<rparr>"

text \<open>The body of the \<open>try\<close> block of \<open>read_last_status\<close>, lines 78-85.\<close>

definition read_status_file :: "string stored \<Rightarrow> exn + string option" where
  "read_status_file f =
     (case f of
        Absent \<Rightarrow> Inr None
      | Unreadable \<Rightarrow> Inl IOError
      | Content s \<Rightarrow> Inr (Some (strip s)))"

definition read_last_status :: "string stored \<Rightarrow> string option" where
  "read_last_status f = (case read_status_file f of Inr status \<Rightarrow> status | Inl e \<Rightarrow> None)"

definition write_current_status :: "io_outcome \<Rightarrow> string \<Rightarrow> world \<Rightarrow> world" where
  "write_current_status out status w =
     (case out of IoOk \<Rightarrow> w\<lparr>status_file := Content status\<rparr> | IoError \<Rightarrow> w)"

text \<open>The body of the \<open>try\<close> block of \<open>read_last_notification_time\<close>, lines 100-103.\<close>

definition read_notification_file :: "stamp stored \<Rightarrow> exn + datetime option" where
  "read_notification_file f =
     (case f of
        Absent \<Rightarrow> Inr None
      | Unreadable \<Rightarrow> Inl IOError
      | Content Malformed \<Rightarrow> Inl ValueError
      | Content (Iso t) \<Rightarrow> Inr (Some (Naive t))
      | Content (IsoOffset t) \<Rightarrow> Inr (Some (Aware t)))"

definition read_last_notification_time :: "stamp stored \<Rightarrow> datetime option" where
  "read_last_notification_time f =
     (case read_notification_file f of Inr t \<Rightarrow> t | Inl e \<Rightarrow> None)"

definition write_last_notification_time :: "io_outcome \<Rightarrow> int \<Rightarrow> world \<Rightarrow> world" where
  "write_last_notification_time out now w =
     (case out of IoOk \<Rightarrow> w\<lparr>notification_file := Content (Iso now)\<rparr> | IoError \<Rightarrow> w)"

section \<open>The notifier (lines 115-135)\<close>

text \<open>
  \<open>str.encode('utf-8')\<close>, one code point at a time. A surrogate, U+D800-U+DFFF, has no
  UTF-8 form and the call raises; code points from U+10000 on take four bytes (a \<open>str\<close>
  holds none from 0x110000 on).
\<close>

definition utf8_bytes :: "nat \<Rightarrow> exn + nat list" where
  "utf8_bytes c =
     (if c < 0x80 then Inr [c]
      else if c < 0x800 then Inr [0xC0 + c div 64, 0x80 + c mod 64]
      else if 0xD800 \<le> c \<and> c < 0xE000 then Inl UnicodeEncodeError
      else if c < 0x10000 then
        Inr [0xE0 + c div 4096, 0x80 + (c div 64) mod 64, 0x80 + c mod 64]
      else
        Inr [0xF0 + c div 262144, 0x80 + (c div 4096) mod 64, 0x80 + (c div 64) mod 64,
             0x80 + c mod 64])"

fun encode_utf8 :: "nat list \<Rightarrow> exn + nat list" where
  "encode_utf8 [] = Inr []"
| "encode_utf8 (c # cs) =
     (case utf8_bytes c of
        Inl e \<Rightarrow> Inl e
      | Inr bs \<Rightarrow> (case encode_utf8 cs of Inl e \<Rightarrow> Inl e | Inr rest \<Rightarrow> Inr (bs @ rest)))"

text \<open>\<open>bytes.decode('latin-1')\<close>: every byte is the code point of one character.\<close>

definition decode_latin1 :: "nat list \<Rightarrow> string" where
  "decode_latin1 bs = map char_of bs"

text \<open>Line 129: \<open>text.encode('utf-8').decode('latin-1')\<close>.\<close>

definition reencode :: "string \<Rightarrow> exn + string" where
  "reencode text =
     (case encode_utf8 (map of_char text) of
        Inl e \<Rightarrow> Inl e
      | Inr bs \<Rightarrow> Inr (decode_latin1 bs))"

text \<open>Lines 122-127: the text for a status.\<close>

definition notification_text :: "string \<Rightarrow> string" where
  "notification_text message =
     (if message = ''Tickets Potentially Available'' then
        ''Potential ticket availability detected for the New Year event! Check here: https://fomobaku.com/en/page/events''
      else if message = ''Tickets Not Available'' then
        ''Tickets are currently not available.''
      else '' Status: '' @ message)"

text \<open>
  What the environment answers during one call of the notifier: the two readings of
  \<open>datetime.now()\<close> (line 121 and line 111, in microseconds), whether
  \<open>bot.send_message\<close> returns or raises, and whether the notification file can be
  written. \<open>Bot(token=...)\<close> raises for an empty token only; the token of line 24 is not
  empty.
\<close>

record notify_env =
  now_check :: int
  delivery :: "exn option"
  now_write :: int
  stamp_write :: io_outcome

text \<open>\<open>timedelta(minutes=30)\<close> in microseconds.\<close>

definition cooldown :: int where
  "cooldown = 30 * 60 * 1000000"

text \<open>
  The condition of line 121, evaluated from left to right. A \<open>datetime\<close> is always true
  as a condition, so \<open>not last_notification\<close> holds for \<open>None\<close> only.
  \<open>datetime.now()\<close> is naive: subtracting an aware \<open>datetime\<close> from it raises
  \<open>TypeError\<close>.
\<close>

definition eligible :: "bool \<Rightarrow> datetime option \<Rightarrow> int \<Rightarrow> exn + bool" where
  "eligible force last_notification now =
     (if force then Inr True
      else case last_notification of
             None \<Rightarrow> Inr True
           | Some (Naive t) \<Rightarrow> Inr (cooldown < now - t)
           | Some (Aware t) \<Rightarrow> Inl TypeError)"

text \<open>
  The body of the \<open>try\<close> block, lines 117-133. The result is the exception that left
  the block, if any, and the world as the block left it. \<open>SendMessage\<close> records the call
  of \<open>bot.send_message\<close> with the text it is given.
\<close>

definition notify_body :: "notify_env \<Rightarrow> string \<Rightarrow> bool \<Rightarrow> world \<Rightarrow> exn option \<times> world" where
  "notify_body env message force w =
     (let last_notification = read_last_notification_time (notification_file w)
      in case eligible force last_notification (now_check env) of
           Inl e \<Rightarrow> (Some e, w)
         | Inr ok \<Rightarrow>
             if ok then
               (case reencode (notification_text message) of
                  Inl e \<Rightarrow> (Some e, w)
                | Inr payload \<Rightarrow>
                    (let w1 = emit (SendMessage payload) w
                     in case delivery env of
                          Some e \<Rightarrow> (Some e, w1)
                        | None \<Rightarrow>
                            (None,
                             write_last_notification_time (stamp_write env) (now_write env) w1)))
             else (None, w))"

text \<open>The handler of line 134 logs the exception and the call returns.\<close>

definition send_telegram_notification :: "notify_env \<Rightarrow> string \<Rightarrow> bool \<Rightarrow> world \<Rightarrow> world" where
  "send_telegram_notification env message force w =
     (case notify_body env message force w of
        (None, w') \<Rightarrow> w'
      | (Some e, w') \<Rightarrow> w')"

section \<open>The poll loop (lines 137-183)\<close>

text \<open>
  The functions called in the loop body catch their own exceptions, so the place where
  something can reach the handlers of the loop is its suspension point,
  \<open>await asyncio.sleep(sleep_time)\<close>: the sleep ends, or an \<open>Exception\<close> or a
  \<open>KeyboardInterrupt\<close> is raised there.
\<close>

datatype sleep_outcome = Slept | SleepRaised exn | SleepInterrupted

record iter_env =
  http :: http_result
  notifier :: notify_env
  status_write :: io_outcome
  sleeping :: sleep_outcome

record loop_state =
  wld :: world
  consecutive_errors :: nat
  last_status :: "string option"

datatype control = Continue | Break

definition max_consecutive_errors :: nat where
  "max_consecutive_errors = 5"

text \<open>Lines 161-167: the new error counter and the sleep time.\<close>

definition backoff :: "string \<Rightarrow> nat \<Rightarrow> nat \<times> nat" where
  "backoff current_status errors =
     (if current_status = ''Error'' then (errors + 1, min (60 * 2 ^ (errors + 1)) 3600)
      else (0, 300))"

text \<open>
  One pass through the loop body, lines 144-183. \<open>Fetch\<close> records the call of
  \<open>check_ticket_availability\<close>, \<open>NotifyCall\<close> a call of
  \<open>send_telegram_notification\<close> with its arguments, \<open>WriteStatus\<close> a call of
  \<open>write_current_status\<close>, \<open>Sleep\<close> a call of \<open>asyncio.sleep\<close>.
\<close>

definition iteration :: "lowering \<Rightarrow> iter_env \<Rightarrow> loop_state \<Rightarrow> control \<times> loop_state" where
  "iteration low env s =
     (let current_status = check_ticket_availability low (http env);
          w0 = emit Fetch (wld s);
          s1 = (if Some current_status \<noteq> last_status s then
                  s\<lparr>wld := write_current_status (status_write env) current_status
                             (emit (WriteStatus current_status)
                                (send_telegram_notification (notifier env) current_status False
                                   (emit (NotifyCall current_status False) w0))),
                    last_status := Some current_status\<rparr>
                else
                  s\<lparr>wld := send_telegram_notification (notifier env) current_status True
                             (emit (NotifyCall current_status True) w0)\<rparr>);
          (errors, sleep_time) = backoff current_status (consecutive_errors s1);
          s2 = s1\<lparr>consecutive_errors := errors\<rparr>
      in if max_consecutive_errors \<le> consecutive_errors s2 then (Break, s2)
         else
           (let s3 = s2\<lparr>wld := emit (Sleep sleep_time) (wld s2)\<rparr>
            in case sleeping env of
                 Slept \<Rightarrow> (Continue, s3)
               | SleepInterrupted \<Rightarrow> (Break, s3)
               | SleepRaised e \<Rightarrow>
                   (Continue, s3\<lparr>consecutive_errors := consecutive_errors s3 + 1,
                                  wld := emit (Sleep 60) (wld s3)\<rparr>)))"

text \<open>
  \<open>while True\<close>: the loop takes the answers of the environment one iteration at a
  time. \<open>Exited\<close> says that the loop was left by a \<open>break\<close>; \<open>Running\<close> that the
  answers given are used up and the loop is about to start its next iteration.
\<close>

datatype run = Exited | Running

fun main_loop :: "lowering \<Rightarrow> iter_env list \<Rightarrow> loop_state \<Rightarrow> run \<times> loop_state" where
  "main_loop low [] s = (Running, s)"
| "main_loop low (env # envs) s =
     (case iteration low env s of
        (Break, s') \<Rightarrow> (Exited, s')
      | (Continue, s') \<Rightarrow> main_loop low envs s')"

text \<open>Lines 138-141 and the loop.\<close>

definition main :: "lowering \<Rightarrow> iter_env list \<Rightarrow> world \<Rightarrow> run \<times> loop_state" where
  "main low envs w =
     main_loop low envs
       \<lparr>wld = w, consecutive_errors = 0, last_status = read_last_status (status_file w)\<rparr>"

text \<open>Projections of a trace.\<close>

fun sleeps :: "event list \<Rightarrow> nat list" where
  "sleeps [] = []"
| "sleeps (Sleep n # es) = n # sleeps es"
| "sleeps (e # es) = sleeps es"

fun notify_calls :: "event list \<Rightarrow> (string \<times> bool) list" where
  "notify_calls [] = []"
| "notify_calls (NotifyCall m f # es) = (m, f) # notify_calls es"
| "notify_calls (e # es) = notify_calls es"

fun status_writes :: "event list \<Rightarrow> string list" where
  "status_writes [] = []"
| "status_writes (WriteStatus st # es) = st # status_writes es"
| "status_writes (e # es) = status_writes es"

fun fetches :: "event list \<Rightarrow> nat" where
  "fetches [] = 0"
| "fetches (Fetch # es) = Suc (fetches es)"
| "fetches (e # es) = fetches es"

section \<open>Notions of the specification\<close>

text \<open>
  The classifier in the words of the specification: a keyword occurs in a text as a
  case-insensitive substring when some contiguous slice of the text equals the keyword
  up to the case of its letters, code point by code point. Two code points are equal up
  to case when they have the same lower-case form.
\<close>

definition equal_ignoring_case :: "lowering \<Rightarrow> nat \<Rightarrow> nat \<Rightarrow> bool" where
  "equal_ignoring_case low c d \<longleftrightarrow> lower low [c] = lower low [d]"

definition occurs_ignoring_case :: "lowering \<Rightarrow> pystr \<Rightarrow> pystr \<Rightarrow> bool" where
  "occurs_ignoring_case low keyword page_text \<longleftrightarrow>
     (\<exists>before slice after.
        page_text = before @ slice @ after \<and>
        list_all2 (equal_ignoring_case low) slice keyword)"

text \<open>
  Two loop states that differ at most in the content of the status file: the loop reads
  that file before its first iteration only.
\<close>

definition same_apart_from_status_file :: "loop_state \<Rightarrow> loop_state \<Rightarrow> bool" where
  "same_apart_from_status_file s t \<longleftrightarrow>
     consecutive_errors s = consecutive_errors t \<and> last_status s = last_status t \<and>
     notification_file (wld s) = notification_file (wld t) \<and> trace (wld s) = trace (wld t)"

section \<open>Sample inputs\<close>

text \<open>
  A table of lower-case forms for the sample inputs: the one of the Latin-1 block, where
  the capitals U+00C0-U+00DE (without the multiplication sign U+00D7) move up by 32; it
  leaves every other code point as it is.
\<close>

definition latin1_lowering :: lowering where
  "latin1_lowering before c after =
     (if 0xC0 \<le> c \<and> c \<le> 0xDE \<and> c \<noteq> 0xD7 then [c + 32] else [c])"

text \<open>
  Page texts: \<open>BUY TICKET\<close> with the Kelvin sign U+212A for its K, and with U+0130 for
  its I.
\<close>

definition kelvin_page :: pystr where
  "kelvin_page = str_of ''BUY TIC'' @ [0x212A] @ str_of ''ET''"

definition dotted_page :: pystr where
  "dotted_page = str_of ''BUY T'' @ [0x130] @ str_of ''CKET''"



text \<open>
  A world whose last notification was sent at time 0 and whose last status is
  \<open>Tickets Not Available\<close>, and a notifier call five minutes later whose delivery and
  file write succeed.
\<close>

definition recent_world :: world where
  "recent_world =
     \<lparr>status_file = Content ''Tickets Not Available'', notification_file = Content (Iso 0),
      trace = []\<rparr>"

definition five_minutes_later :: notify_env where
  "five_minutes_later =
     \<lparr>now_check = 300000000, delivery = None, now_write = 300000001, stamp_write = IoOk\<rparr>"

definition started :: loop_state where
  "started =
     \<lparr>wld = recent_world, consecutive_errors = 0,
      last_status = Some ''Tickets Not Available''\<rparr>"

text \<open>
  Iterations: the page shows no keyword; the page shows a keyword; the fetch times out;
  the fetch times out and the sleep that follows is ended by an exception.
\<close>

definition unchanged_env :: iter_env where
  "unchanged_env =
     \<lparr>http = Fetched (Response 200 (Inr (str_of ''Sold out''))), notifier = five_minutes_later,
      status_write = IoOk, sleeping = Slept\<rparr>"

definition available_env :: iter_env where
  "available_env =
     \<lparr>http = Fetched (Response 200 (Inr (str_of ''Buy Ticket here''))), notifier = five_minutes_later,
      status_write = IoOk, sleeping = Slept\<rparr>"

definition timeout_env :: iter_env where
  "timeout_env =
     \<lparr>http = Failed Timeout, notifier = five_minutes_later, status_write = IoOk,
      sleeping = Slept\<rparr>"

definition cancelled_env :: iter_env where
  "cancelled_env =
     \<lparr>http = Failed Timeout, notifier = five_minutes_later, status_write = IoOk,
      sleeping = SleepRaised CancelledError\<rparr>"

section \<open>Strings\<close>

lemma lower_single: "lower low [c] = lower_at low [] c []"
  by (simp add: lower_def)

lemma lower_at_cases:
  assumes "unicode_lowering low"
  shows "(\<exists>a<128. lower_at low b c r = [a] \<and> lower_at low [] c [] = [a]) \<or>
         (lower_at low b c r = [0x69, 0x307] \<and> lower_at low [] c [] = [0x69, 0x307]) \<or>
         (lower_at low b c r \<noteq> [] \<and> (\<forall>x\<in>set (lower_at low b c r). 128 \<le> x) \<and>
          lower_at low [] c [] \<noteq> [] \<and> (\<forall>x\<in>set (lower_at low [] c []). 128 \<le> x))"
proof -
  consider "65 \<le> c \<and> c \<le> 90" | "c < 128" "\<not> (65 \<le> c \<and> c \<le> 90)" | "c = 0x212A" | "c = 0x130"
    | "128 \<le> c" "c \<noteq> 0x212A" "c \<noteq> 0x130"
    by linarith
  then show ?thesis
  proof cases
    case 5
    then have "lower_at low b' c r' = low b' c r'" for b' r'
      by (simp add: lower_at_def)
    moreover from assms 5 have "low b' c r' \<noteq> [] \<and> (\<forall>x\<in>set (low b' c r'). 128 \<le> x)"
      for b' r'
      unfolding unicode_lowering_def by blast
    ultimately show ?thesis by simp
  qed (simp_all add: lower_at_def)
qed

lemma startswith_nonascii:
  assumes "p \<noteq> []" and "\<forall>x\<in>set p. 128 \<le> (x::nat)" and "\<forall>x\<in>set need. x < 128" and "need \<noteq> []"
  shows "\<not> startswith (p @ rest) need"
proof -
  obtain x p' where p: "p = x # p'" using assms(1) by (cases p) auto
  obtain a need' where n: "need = a # need'" using assms(4) by (cases need) auto
  from assms(2,3) p n have "128 \<le> x" "a < 128" by auto
  then show ?thesis using p n by simp
qed

lemma contains_nonascii:
  assumes "\<forall>x\<in>set p. 128 \<le> (x::nat)" and "\<forall>x\<in>set need. x < 128" and "need \<noteq> []"
  shows "contains (p @ rest) need = contains rest need"
  using assms(1)
proof (induction p)
  case Nil
  then show ?case by simp
next
  case (Cons x p)
  have "\<not> startswith ((x # p) @ rest) need"
    using startswith_nonascii [of "x # p" need rest] Cons.prems assms(2,3) by blast
  then show ?case using Cons by simp
qed

lemma startswith_lower:
  assumes u: "unicode_lowering low"
  shows "\<forall>x\<in>set need. x < 128 \<Longrightarrow> need = [] \<or> last need \<noteq> 0x69 \<Longrightarrow>
     startswith (lower_from low b s) need \<longleftrightarrow>
       (\<exists>slice post. s = slice @ post \<and> list_all2 (\<lambda>c a. lower low [c] = [a]) slice need)"
proof (induction s arbitrary: b need)
  case Nil
  then show ?case by (cases need) auto
next
  case (Cons c s)
  show ?case
  proof (cases need)
    case Nil
    then show ?thesis by simp
  next
    case (Cons a need')
    with Cons.prems have a: "a < 128" and n': "\<forall>x\<in>set need'. x < 128"
      and l': "need' = [] \<or> last need' \<noteq> 0x69" and na: "need' = [] \<longrightarrow> a \<noteq> 0x69"
      by (auto split: if_splits)
    have rhs: "(\<exists>slice post. c # s = slice @ post \<and>
          list_all2 (\<lambda>c a. lower low [c] = [a]) slice (a # need')) \<longleftrightarrow>
        (lower_at low [] c [] = [a] \<and>
         (\<exists>slice post. s = slice @ post \<and> list_all2 (\<lambda>c a. lower low [c] = [a]) slice need'))"
      by (auto simp: list_all2_Cons2 Cons_eq_append_conv lower_single)
    from lower_at_cases [OF u, of b c s]
    consider x where "x < 128" "lower_at low b c s = [x]" "lower_at low [] c [] = [x]"
      | "lower_at low b c s = [0x69, 0x307]" "lower_at low [] c [] = [0x69, 0x307]"
      | "lower_at low b c s \<noteq> []" "\<forall>x\<in>set (lower_at low b c s). 128 \<le> x"
        "lower_at low [] c [] \<noteq> []" "\<forall>x\<in>set (lower_at low [] c []). 128 \<le> x"
      by blast
    then show ?thesis
    proof cases
      case 1
      then show ?thesis
        using Cons.IH [OF n' l', of "b @ [c]"] Cons rhs by auto
    next
      case 2
      have "\<not> startswith (0x69 # 0x307 # lower_from low (b @ [c]) s) (a # need')"
      proof (cases need')
        case Nil
        then show ?thesis using na by simp
      next
        case (Cons a' n'')
        then have "a' < 128" using n' by simp
        then show ?thesis using Cons by simp
      qed
      then have "\<not> startswith (lower_from low b (c # s)) need"
        using 2(1) Cons by simp
      moreover have "lower_at low [] c [] \<noteq> [a]"
        using 2(2) by simp
      ultimately show ?thesis unfolding Cons rhs by blast
    next
      case 3
      have "\<not> startswith (lower_at low b c s @ lower_from low (b @ [c]) s) need"
        using startswith_nonascii [OF 3(1,2), of need] Cons.prems(1) Cons by blast
      then have "\<not> startswith (lower_from low b (c # s)) need"
        by simp
      moreover have "lower_at low [] c [] \<noteq> [a]"
        using 3(4) a by (metis list.set_intros(1) not_le)
      ultimately show ?thesis unfolding Cons rhs by blast
    qed
  qed
qed

lemma contains_lower:
  assumes u: "unicode_lowering low" and n: "\<forall>x\<in>set need. x < 128" and ne: "need \<noteq> []"
    and l: "last need \<noteq> 0x69"
  shows "contains (lower_from low b s) need \<longleftrightarrow>
       (\<exists>pre slice post. s = pre @ slice @ post \<and>
          list_all2 (\<lambda>c a. lower low [c] = [a]) slice need)"
proof (induction s arbitrary: b)
  case Nil
  then show ?case using ne by (auto simp: list_all2_Nil)
next
  case (Cons c s)
  let ?M = "list_all2 (\<lambda>c a. lower low [c] = [a])"
  have split: "(\<exists>pre slice post. c # s = pre @ slice @ post \<and> ?M slice need) \<longleftrightarrow>
      (\<exists>slice post. c # s = slice @ post \<and> ?M slice need) \<or>
      (\<exists>pre slice post. s = pre @ slice @ post \<and> ?M slice need)"
  proof
    assume "\<exists>pre slice post. c # s = pre @ slice @ post \<and> ?M slice need"
    then obtain pre slice post where e: "c # s = pre @ slice @ post" and m: "?M slice need"
      by blast
    show "(\<exists>slice post. c # s = slice @ post \<and> ?M slice need) \<or>
      (\<exists>pre slice post. s = pre @ slice @ post \<and> ?M slice need)"
    proof (cases pre)
      case Nil
      then show ?thesis using e m by auto
    next
      case (Cons p pre')
      then have "s = pre' @ slice @ post" using e by simp
      then show ?thesis using m by blast
    qed
  next
    assume "(\<exists>slice post. c # s = slice @ post \<and> ?M slice need) \<or>
      (\<exists>pre slice post. s = pre @ slice @ post \<and> ?M slice need)"
    then show "\<exists>pre slice post. c # s = pre @ slice @ post \<and> ?M slice need"
    proof
      assume "\<exists>slice post. c # s = slice @ post \<and> ?M slice need"
      then obtain slice post where "c # s = [] @ slice @ post" "?M slice need" by auto
      then show ?thesis by blast
    next
      assume "\<exists>pre slice post. s = pre @ slice @ post \<and> ?M slice need"
      then obtain pre slice post where "c # s = (c # pre) @ slice @ post" "?M slice need" by auto
      then show ?thesis by blast
    qed
  qed
  have sw: "startswith (lower_from low b (c # s)) need \<longleftrightarrow>
      (\<exists>slice post. c # s = slice @ post \<and> ?M slice need)"
    using startswith_lower [OF u n, of b "c # s"] l by blast
  have step: "contains (lower_from low b (c # s)) need \<longleftrightarrow>
      startswith (lower_from low b (c # s)) need \<or> contains (lower_from low (b @ [c]) s) need"
  proof -
    from lower_at_cases [OF u, of b c s]
    consider x where "x < 128" "lower_at low b c s = [x]"
      | "lower_at low b c s = [0x69, 0x307]"
      | "lower_at low b c s \<noteq> []" "\<forall>x\<in>set (lower_at low b c s). 128 \<le> x"
      by blast
    then show ?thesis
    proof cases
      case 1
      then show ?thesis by simp
    next
      case 2
      obtain a need' where nd: "need = a # need'" using ne by (cases need) auto
      then have "a < 128" using n by simp
      then have "\<not> startswith (0x307 # lower_from low (b @ [c]) s) need" using nd by simp
      then show ?thesis using 2 by simp
    next
      case 3
      have "\<not> startswith (lower_at low b c s @ lower_from low (b @ [c]) s) need"
        using startswith_nonascii [OF 3(1,2) n ne] by blast
      then show ?thesis using contains_nonascii [OF 3(2) n ne] by simp
    qed
  qed
  show ?case using step sw split Cons.IH [of "b @ [c]"] by simp
qed

lemma lower_from_ascii:
  "\<forall>x\<in>set s. x < 128 \<Longrightarrow>
     lower_from low b s = map (\<lambda>c. if 65 \<le> c \<and> c \<le> 90 then c + 32 else c) s"
  by (induction s arbitrary: b) (auto simp: lower_at_def)

lemma keyword_occurs:
  assumes u: "unicode_lowering low" and k: "\<forall>x\<in>set kw. x < 128" and ne: "kw \<noteq> []"
    and l: "last kw \<noteq> 0x69" "last kw \<noteq> 0x49"
  shows "contains (lower low pg) (lower low kw) \<longleftrightarrow> occurs_ignoring_case low kw pg"
proof -
  let ?al = "\<lambda>c::nat. if 65 \<le> c \<and> c \<le> 90 then c + 32 else c"
  have lk: "lower_from low [] kw = map ?al kw"
    using lower_from_ascii [OF k] by simp
  have n: "\<forall>x\<in>set (map ?al kw). x < 128" using k by auto
  have ne': "map ?al kw \<noteq> []" using ne by simp
  have l': "last (map ?al kw) \<noteq> 0x69" using ne l by (simp add: last_map)
  have eq: "list_all2 (\<lambda>c a. lower low [c] = [a]) slice (map ?al kw) \<longleftrightarrow>
      list_all2 (equal_ignoring_case low) slice kw" for slice
  proof -
    have "lower low [d] = [?al d]" if "d \<in> set kw" for d
      using that k by (simp add: lower_single lower_at_def)
    then have "list_all2 (\<lambda>c d. lower low [c] = [?al d]) slice kw \<longleftrightarrow>
        list_all2 (equal_ignoring_case low) slice kw"
      unfolding equal_ignoring_case_def
      by (auto simp: list_all2_conv_all_nth)
    then show ?thesis by (simp add: list_all2_map2)
  qed
  have "contains (lower low pg) (lower low kw) \<longleftrightarrow>
      contains (lower_from low [] pg) (map ?al kw)"
    by (simp add: lower_def lk)
  also have "\<dots> \<longleftrightarrow> (\<exists>pre slice post. pg = pre @ slice @ post \<and>
      list_all2 (\<lambda>c a. lower low [c] = [a]) slice (map ?al kw))"
    by (rule contains_lower [OF u n ne' l'])
  also have "\<dots> \<longleftrightarrow> occurs_ignoring_case low kw pg"
    unfolding occurs_ignoring_case_def eq ..
  finally show ?thesis .
qed

lemma availability_indicators_iff:
  assumes "unicode_lowering low"
  shows "availability_indicators low pg \<longleftrightarrow>
     (\<exists>kw\<in>set ticket_keywords. occurs_ignoring_case low kw pg)"
proof -
  have "contains (lower low pg) (lower low kw) \<longleftrightarrow> occurs_ignoring_case low kw pg"
    if "kw \<in> set ticket_keywords" for kw
    using that by (intro keyword_occurs [OF assms]) (auto simp: ticket_keywords_def str_of_def)
  then show ?thesis
    by (auto simp: availability_indicators_def list_ex_iff)
qed

lemma latin1_lowering_unicode: "unicode_lowering latin1_lowering"
  by (simp add: unicode_lowering_def latin1_lowering_def)

section \<open>The availability check\<close>

text \<open>
  C3. For every page text, a sequence of code points: the status of the text is
  \<open>Tickets Potentially Available\<close> exactly when one of the three keywords occurs in
  it as a case-insensitive substring, and \<open>Tickets Not Available\<close> exactly when none
  does. The check returns this status for the text of a response with code 200, and the
  empty text gives \<open>Tickets Not Available\<close>, not \<open>Error\<close>. The lower-case forms of
  the code points from 128 on are those of any table with the property
  \<open>unicode_lowering\<close>.
\<close>

theorem classification_by_keywords:
  assumes "unicode_lowering low"
  shows "(classify low pg = ''Tickets Potentially Available'' \<longleftrightarrow>
            (\<exists>kw\<in>set ticket_keywords. occurs_ignoring_case low kw pg)) \<and>
         (classify low pg = ''Tickets Not Available'' \<longleftrightarrow>
            \<not> (\<exists>kw\<in>set ticket_keywords. occurs_ignoring_case low kw pg)) \<and>
         ticket_keywords =
           [str_of ''NEW YEAR'', str_of ''BUY TICKET'', str_of ''EVENT TICKET''] \<and>
         check_ticket_availability low (Fetched (Response 200 (Inr pg))) = classify low pg \<and>
         check_ticket_availability low (Fetched (Response 200 (Inr []))) =
           ''Tickets Not Available''"
proof -
  have e: "classify low [] = ''Tickets Not Available''"
    by (simp add: classify_def availability_indicators_def ticket_keywords_def lower_def
        str_of_def lower_at_def)
  have c: "check_ticket_availability low (Fetched (Response 200 (Inr t))) = classify low t" for t
    by (simp add: check_ticket_availability_def scrape_def raise_for_status_def)
  have a: "classify low pg = ''Tickets Potentially Available'' \<longleftrightarrow>
      (\<exists>kw\<in>set ticket_keywords. occurs_ignoring_case low kw pg)"
    by (simp add: classify_def availability_indicators_iff [OF assms])
  have n: "classify low pg = ''Tickets Not Available'' \<longleftrightarrow>
      \<not> (\<exists>kw\<in>set ticket_keywords. occurs_ignoring_case low kw pg)"
    by (simp add: classify_def availability_indicators_iff [OF assms])
  show ?thesis
    unfolding c e using a n by (simp add: ticket_keywords_def)
qed

theorem classification_by_keywords_witness:
  "unicode_lowering latin1_lowering \<and>
   classify latin1_lowering (str_of ''Buy Ticket today'') = ''Tickets Potentially Available'' \<and>
   (\<exists>kw\<in>set ticket_keywords.
      occurs_ignoring_case latin1_lowering kw (str_of ''Buy Ticket today'')) \<and>
   classify latin1_lowering (str_of ''Sold out'') = ''Tickets Not Available'' \<and>
   \<not> (\<exists>kw\<in>set ticket_keywords. occurs_ignoring_case latin1_lowering kw (str_of ''Sold out'')) \<and>
   classify latin1_lowering kelvin_page = ''Tickets Potentially Available'' \<and>
   (\<exists>kw\<in>set ticket_keywords. occurs_ignoring_case latin1_lowering kw kelvin_page) \<and>
   classify latin1_lowering dotted_page = ''Tickets Not Available'' \<and>
   \<not> (\<exists>kw\<in>set ticket_keywords. occurs_ignoring_case latin1_lowering kw dotted_page)"
proof -
  have a: "classify latin1_lowering (str_of ''Buy Ticket today'') =
      ''Tickets Potentially Available''"
    by code_simp
  have b: "classify latin1_lowering (str_of ''Sold out'') = ''Tickets Not Available''"
    by code_simp
  have c: "classify latin1_lowering kelvin_page = ''Tickets Potentially Available''"
    by code_simp
  have d: "classify latin1_lowering dotted_page = ''Tickets Not Available''"
    by code_simp
  show ?thesis
    using a b c d latin1_lowering_unicode
      classification_by_keywords
        [OF latin1_lowering_unicode, of "str_of ''Buy Ticket today''"]
      classification_by_keywords [OF latin1_lowering_unicode, of "str_of ''Sold out''"]
      classification_by_keywords [OF latin1_lowering_unicode, of kelvin_page]
      classification_by_keywords [OF latin1_lowering_unicode, of dotted_page]
    by blast
qed

text \<open>
  C7, as the claim states it, fails for a status code outside 200-299 that
  \<open>raise_for_status\<close> lets pass: a response with code 304 and an empty page is
  classified, and the check returns \<open>Tickets Not Available\<close>.
\<close>

theorem not_modified_is_classified:
  "\<forall>low.
     304 \<notin> {200..<300::nat} \<and>
     check_ticket_availability low (Fetched (Response 304 (Inr []))) =
       ''Tickets Not Available'' \<and>
     check_ticket_availability low (Fetched (Response 304 (Inr []))) \<noteq> ''Error''"
  by (simp add: check_ticket_availability_def scrape_def raise_for_status_def classify_def
      availability_indicators_def ticket_keywords_def lower_def str_of_def lower_at_def)

text \<open>
  C7, amended. The check returns \<open>Error\<close> when \<open>requests.get\<close> raises (timeout,
  connection refusal or any other exception), when the response has a status code from
  400 to 599, when the parse raises, and in general whenever an exception leaves the
  \<open>try\<close> block. The check has no result but a status, so nothing is propagated.
\<close>

theorem check_ticket_availability_error:
  "check_ticket_availability low (Failed e) = ''Error'' \<and>
   (400 \<le> sc \<and> sc < 600 \<longrightarrow>
      check_ticket_availability low (Fetched (Response sc pg)) = ''Error'') \<and>
   check_ticket_availability low (Fetched (Response sc (Inl e))) = ''Error'' \<and>
   (scrape low h = Inl e' \<longrightarrow> check_ticket_availability low h = ''Error'') \<and>
   (\<not> (400 \<le> sc \<and> sc < 600) \<longrightarrow>
      check_ticket_availability low (Fetched (Response sc (Inr soup_text))) =
        classify low soup_text)"
  by (simp add: check_ticket_availability_def scrape_def raise_for_status_def)

theorem check_ticket_availability_error_witness:
  "check_ticket_availability latin1_lowering (Failed Timeout) = ''Error'' \<and>
   (400 \<le> (500::nat) \<and> (500::nat) < 600) \<and>
   check_ticket_availability latin1_lowering
     (Fetched (Response 500 (Inr (str_of ''BUY TICKET'')))) = ''Error'' \<and>
   check_ticket_availability latin1_lowering (Fetched (Response 200 (Inl ParserError))) =
     ''Error'' \<and>
   scrape latin1_lowering (Failed ConnectionError) = Inl ConnectionError \<and>
   check_ticket_availability latin1_lowering (Failed ConnectionError) = ''Error'' \<and>
   \<not> (400 \<le> (304::nat) \<and> (304::nat) < 600) \<and>
   check_ticket_availability latin1_lowering
     (Fetched (Response 304 (Inr (str_of ''BUY TICKET'')))) = ''Tickets Potentially Available''"
proof -
  have c: "classify latin1_lowering (str_of ''BUY TICKET'') = ''Tickets Potentially Available''"
    by code_simp
  show ?thesis
    using check_ticket_availability_error
        [of latin1_lowering Timeout 500 "Inr (str_of ''BUY TICKET'')" "Failed ConnectionError"
           ConnectionError "[]"]
      check_ticket_availability_error
        [of latin1_lowering ParserError 200 "Inr []" "Failed ConnectionError" ConnectionError
           "[]"]
      check_ticket_availability_error
        [of latin1_lowering ParserError 304 "Inr []" "Failed ConnectionError" ConnectionError
           "str_of ''BUY TICKET''"]
    by (simp add: scrape_def c)
qed

lemma check_statuses:
  "check_ticket_availability low h \<in>
     {''Tickets Potentially Available'', ''Tickets Not Available'', ''Error''}"
  by (simp add: check_ticket_availability_def scrape_def classify_def
        split: http_result.splits sum.splits)

section \<open>The re-encoding of the outgoing text\<close>

lemma utf8_bytes_below_256: "n < 256 \<Longrightarrow> \<exists>bs. utf8_bytes n = Inr bs"
  by (simp add: utf8_bytes_def)

lemma utf8_bytes_of_char: "\<exists>bs. utf8_bytes (of_char c) = Inr bs"
  by (rule utf8_bytes_below_256) simp

lemma encode_utf8_of_char: "\<exists>bs. encode_utf8 (map of_char cs) = Inr bs"
proof (induction cs)
  case Nil
  then show ?case by simp
next
  case (Cons c cs)
  obtain bs where "utf8_bytes (of_char c) = Inr bs" using utf8_bytes_of_char by blast
  moreover obtain rest where "encode_utf8 (map of_char cs) = Inr rest" using Cons.IH by blast
  ultimately show ?case by simp
qed

lemma reencode_returns: "\<exists>payload. reencode cs = Inr payload"
  using encode_utf8_of_char [of cs] by (auto simp: reencode_def)

lemma encode_utf8_ascii:
  "list_all (\<lambda>c. of_char c < (128::nat)) cs \<Longrightarrow>
     encode_utf8 (map of_char cs) = Inr (map of_char cs)"
  by (induction cs) (simp_all add: utf8_bytes_def)

lemma reencode_ascii:
  "list_all (\<lambda>c. of_char c < (128::nat)) cs \<Longrightarrow> reencode cs = Inr cs"
  by (simp add: reencode_def encode_utf8_ascii decode_latin1_def map_idI)

lemma ascii_available:
  "list_all (\<lambda>c. of_char c < (128::nat)) (notification_text ''Tickets Potentially Available'')"
  by (simp add: notification_text_def)

lemma ascii_not_available:
  "list_all (\<lambda>c. of_char c < (128::nat)) (notification_text ''Tickets Not Available'')"
  by (simp add: notification_text_def)

lemma ascii_error:
  "list_all (\<lambda>c. of_char c < (128::nat)) (notification_text ''Error'')"
  by (simp add: notification_text_def)

lemma notification_text_ascii:
  "list_all (\<lambda>c. of_char c < (128::nat)) (notification_text (check_ticket_availability low h))"
  using check_statuses [of low h] ascii_available ascii_not_available ascii_error by auto

text \<open>
  C10. For every status the availability check returns, the notification text consists
  of code points below 128, and the re-encoding of line 129 raises nothing and returns
  the text as it is.
\<close>

theorem notification_text_reencoded_unchanged:
  "list_all (\<lambda>c. of_char c < (128::nat)) (notification_text (check_ticket_availability low h)) \<and>
   reencode (notification_text (check_ticket_availability low h)) =
     Inr (notification_text (check_ticket_availability low h))"
  using notification_text_ascii [of low h] by (simp add: reencode_ascii)

theorem notification_text_reencoded_unchanged_witness:
  "check_ticket_availability latin1_lowering (Failed Timeout) = ''Error'' \<and>
   reencode '' Status: Error'' = Inr '' Status: Error''"
  using notification_text_reencoded_unchanged [of latin1_lowering "Failed Timeout"]
  by (simp add: check_ticket_availability_def scrape_def notification_text_def)

section \<open>The notifier\<close>


lemma write_stamp_trace:
  "trace (write_last_notification_time out now w) = trace w"
  by (simp add: write_last_notification_time_def split: io_outcome.splits)

lemma write_stamp_status_file:
  "status_file (write_last_notification_time out now w) = status_file w"
  by (simp add: write_last_notification_time_def split: io_outcome.splits)








text \<open>
  C6. When \<open>bot.send_message\<close> raises, the exception leaves the \<open>try\<close> block and is
  caught by the handler: the call returns the world as the block left it, with the call
  of \<open>bot.send_message\<close> recorded, and the notification file is the one from before.
\<close>

theorem delivery_failure_keeps_throttle:
  assumes "delivery env = Some e"
  shows "notification_file (send_telegram_notification env message force w) =
           notification_file w \<and>
    (eligible force (read_last_notification_time (notification_file w)) (now_check env) =
       Inr True \<longrightarrow>
       fst (notify_body env message force w) = Some e \<and>
       (\<exists>payload. send_telegram_notification env message force w =
          emit (SendMessage payload) w))"
  using assms reencode_returns [of "notification_text message"]
  by (cases "eligible force (read_last_notification_time (notification_file w)) (now_check env)")
     (auto simp: send_telegram_notification_def notify_body_def emit_def Let_def)

theorem delivery_failure_keeps_throttle_witness:
  "delivery (five_minutes_later\<lparr>delivery := Some TelegramError\<rparr>) = Some TelegramError \<and>
   eligible True (read_last_notification_time (notification_file recent_world))
     (now_check (five_minutes_later\<lparr>delivery := Some TelegramError\<rparr>)) = Inr True \<and>
   notification_file (send_telegram_notification
       (five_minutes_later\<lparr>delivery := Some TelegramError\<rparr>) ''Error'' True recent_world) =
     Content (Iso 0) \<and>
   fst (notify_body (five_minutes_later\<lparr>delivery := Some TelegramError\<rparr>) ''Error'' True
       recent_world) = Some TelegramError"
  using delivery_failure_keeps_throttle
      [where env = "five_minutes_later\<lparr>delivery := Some TelegramError\<rparr>"
         and e = TelegramError and message = "''Error''" and force = True and w = recent_world]
  by (simp add: eligible_def) (simp add: recent_world_def)

section \<open>Traces\<close>

lemma sleeps_append: "sleeps (xs @ ys) = sleeps xs @ sleeps ys"
  by (induction xs rule: sleeps.induct) simp_all

lemma fetches_append: "fetches (xs @ ys) = fetches xs + fetches ys"
  by (induction xs rule: fetches.induct) simp_all

lemma notify_calls_append: "notify_calls (xs @ ys) = notify_calls xs @ notify_calls ys"
  by (induction xs rule: notify_calls.induct) simp_all

lemma status_writes_append: "status_writes (xs @ ys) = status_writes xs @ status_writes ys"
  by (induction xs rule: status_writes.induct) simp_all

lemma emit_trace: "trace (emit e w) = trace w @ [e]"
  by (simp add: emit_def)

lemma emit_notification_file: "notification_file (emit e w) = notification_file w"
  by (simp add: emit_def)

lemma send_trace:
  "trace (send_telegram_notification env m f w) = trace w \<or>
   (\<exists>p. trace (send_telegram_notification env m f w) = trace w @ [SendMessage p])"
  by (simp add: send_telegram_notification_def notify_body_def Let_def emit_def write_stamp_trace
      split: sum.splits option.splits)

lemma send_sleeps: "sleeps (trace (send_telegram_notification env m f w)) = sleeps (trace w)"
  using send_trace [of env m f w] by (auto simp: sleeps_append)

lemma send_fetches: "fetches (trace (send_telegram_notification env m f w)) = fetches (trace w)"
  using send_trace [of env m f w] by (auto simp: fetches_append)

lemma send_notify_calls:
  "notify_calls (trace (send_telegram_notification env m f w)) = notify_calls (trace w)"
  using send_trace [of env m f w] by (auto simp: notify_calls_append)

lemma send_status_writes:
  "status_writes (trace (send_telegram_notification env m f w)) = status_writes (trace w)"
  using send_trace [of env m f w] by (auto simp: status_writes_append)

lemma write_status_trace: "trace (write_current_status out st w) = trace w"
  by (simp add: write_current_status_def split: io_outcome.splits)

lemma write_status_notification_file:
  "notification_file (write_current_status out st w) = notification_file w"
  by (simp add: write_current_status_def split: io_outcome.splits)

lemma write_status_ok: "status_file (write_current_status IoOk st w) = Content st"
  by (simp add: write_current_status_def)

lemmas trace_simps = sleeps_append fetches_append notify_calls_append status_writes_append
  send_sleeps send_fetches send_notify_calls send_status_writes write_status_trace emit_def

section \<open>The poll loop\<close>

lemma iteration_error:
  assumes "check_ticket_availability low (http env) = ''Error''" and "sleeping env = Slept"
  shows "\<exists>s'. iteration low env s =
             (if 5 \<le> consecutive_errors s + 1 then Break else Continue, s') \<and>
           consecutive_errors s' = consecutive_errors s + 1 \<and>
           sleeps (trace (wld s')) =
             sleeps (trace (wld s)) @
               (if 5 \<le> consecutive_errors s + 1 then []
                else [min (60 * 2 ^ (consecutive_errors s + 1)) 3600]) \<and>
           fetches (trace (wld s')) = fetches (trace (wld s)) + 1"
  using assms
  by (simp add: iteration_def Let_def backoff_def max_consecutive_errors_def trace_simps)

lemma iteration_error_raised:
  assumes "check_ticket_availability low (http env) = ''Error''" and "sleeping env = SleepRaised e"
    and "consecutive_errors s + 1 < 5"
  shows "\<exists>s'. iteration low env s = (Continue, s') \<and>
           consecutive_errors s' = consecutive_errors s + 2 \<and>
           fetches (trace (wld s')) = fetches (trace (wld s)) + 1"
  using assms
  by (simp add: iteration_def Let_def backoff_def max_consecutive_errors_def trace_simps)

lemma iteration_fetches:
  "fetches (trace (wld (snd (iteration low env s)))) = fetches (trace (wld s)) + 1"
  by (simp add: iteration_def Let_def backoff_def max_consecutive_errors_def trace_simps
      split: sleep_outcome.splits prod.splits)

lemma timeout_env_error:
  "check_ticket_availability low (http timeout_env) = ''Error''" "sleeping timeout_env = Slept"
  by (simp_all add: timeout_env_def check_ticket_availability_def scrape_def)

lemma cancelled_env_error:
  "check_ticket_availability low (http cancelled_env) = ''Error''"
  "sleeping cancelled_env = SleepRaised CancelledError"
  by (simp_all add: cancelled_env_def check_ticket_availability_def scrape_def)

lemma started_fields:
  "consecutive_errors started = 0" "trace (wld started) = []"
  "last_status started = Some ''Tickets Not Available''"
  by (simp_all add: started_def recent_world_def)

lemma five_errors:
  assumes "consecutive_errors s = 0"
    and e: "check_ticket_availability low (http e1) = ''Error''" "sleeping e1 = Slept"
    "check_ticket_availability low (http e2) = ''Error''" "sleeping e2 = Slept"
    "check_ticket_availability low (http e3) = ''Error''" "sleeping e3 = Slept"
    "check_ticket_availability low (http e4) = ''Error''" "sleeping e4 = Slept"
    "check_ticket_availability low (http e5) = ''Error''" "sleeping e5 = Slept"
  shows "\<exists>s'. main_loop low (e1 # e2 # e3 # e4 # e5 # rest) s = (Exited, s') \<and>
           consecutive_errors s' = 5 \<and>
           sleeps (trace (wld s')) = sleeps (trace (wld s)) @ [120, 240, 480, 960] \<and>
           fetches (trace (wld s')) = fetches (trace (wld s)) + 5"
proof -
  obtain s1 where 1: "iteration low e1 s = (Continue, s1)" "consecutive_errors s1 = 1"
    "sleeps (trace (wld s1)) = sleeps (trace (wld s)) @ [120]"
    "fetches (trace (wld s1)) = fetches (trace (wld s)) + 1"
    using iteration_error [OF e(1,2), of s] assms(1) by auto
  obtain s2 where 2: "iteration low e2 s1 = (Continue, s2)" "consecutive_errors s2 = 2"
    "sleeps (trace (wld s2)) = sleeps (trace (wld s)) @ [120, 240]"
    "fetches (trace (wld s2)) = fetches (trace (wld s)) + 2"
    using iteration_error [OF e(3,4), of s1] 1 by auto
  obtain s3 where 3: "iteration low e3 s2 = (Continue, s3)" "consecutive_errors s3 = 3"
    "sleeps (trace (wld s3)) = sleeps (trace (wld s)) @ [120, 240, 480]"
    "fetches (trace (wld s3)) = fetches (trace (wld s)) + 3"
    using iteration_error [OF e(5,6), of s2] 2 by auto
  obtain s4 where 4: "iteration low e4 s3 = (Continue, s4)" "consecutive_errors s4 = 4"
    "sleeps (trace (wld s4)) = sleeps (trace (wld s)) @ [120, 240, 480, 960]"
    "fetches (trace (wld s4)) = fetches (trace (wld s)) + 4"
    using iteration_error [OF e(7,8), of s3] 3 by auto
  obtain s5 where 5: "iteration low e5 s4 = (Break, s5)" "consecutive_errors s5 = 5"
    "sleeps (trace (wld s5)) = sleeps (trace (wld s)) @ [120, 240, 480, 960]"
    "fetches (trace (wld s5)) = fetches (trace (wld s)) + 5"
    using iteration_error [OF e(9,10), of s4] 4 by auto
  have "main_loop low (e1 # e2 # e3 # e4 # e5 # rest) s = (Exited, s5)"
    using 1(1) 2(1) 3(1) 4(1) 5(1) by simp
  with 5 show ?thesis by blast
qed

text \<open>
  C1 fails on the code. The last status is \<open>Tickets Not Available\<close>, the page shows
  no keyword, and the last notification was sent five minutes ago: the forced call of
  line 157 calls \<open>bot.send_message\<close> all the same, and the notification time is
  written anew.
\<close>

theorem forced_notification_ignores_cooldown:
  "last_status started = Some (check_ticket_availability low (http unchanged_env)) \<and>
   read_last_notification_time (notification_file (wld started)) = Some (Naive 0) \<and>
   now_check (notifier unchanged_env) - 0 < cooldown \<and>
   iteration low unchanged_env started =
    (Continue,
     \<lparr>wld = \<lparr>status_file = Content ''Tickets Not Available'',
              notification_file = Content (Iso 300000001),
              trace = [Fetch, NotifyCall ''Tickets Not Available'' True,
                       SendMessage ''Tickets are currently not available.'', Sleep 300]\<rparr>,
      consecutive_errors = 0, last_status = Some ''Tickets Not Available''\<rparr>)"
  by code_simp

text \<open>
  C2, as the claim states it, fails at the fifth error: the loop is left before
  \<open>asyncio.sleep\<close> is called, so five timeouts in a row give four sleeps, and none of
  1920 seconds.
\<close>

theorem fifth_error_does_not_sleep:
  "\<forall>low.
     fst (main_loop low [timeout_env, timeout_env, timeout_env, timeout_env, timeout_env]
       started) = Exited \<and>
     sleeps (trace (wld (snd (main_loop low
        [timeout_env, timeout_env, timeout_env, timeout_env, timeout_env] started)))) =
       [120, 240, 480, 960] \<and>
     sleeps (trace (wld (snd (main_loop low
        [timeout_env, timeout_env, timeout_env, timeout_env, timeout_env] started)))) \<noteq>
       [120, 240, 480, 960, 1920]"
proof
  fix low
  show "fst (main_loop low [timeout_env, timeout_env, timeout_env, timeout_env, timeout_env]
       started) = Exited \<and>
     sleeps (trace (wld (snd (main_loop low
        [timeout_env, timeout_env, timeout_env, timeout_env, timeout_env] started)))) =
       [120, 240, 480, 960] \<and>
     sleeps (trace (wld (snd (main_loop low
        [timeout_env, timeout_env, timeout_env, timeout_env, timeout_env] started)))) \<noteq>
       [120, 240, 480, 960, 1920]"
    using five_errors [OF started_fields(1) timeout_env_error timeout_env_error
        timeout_env_error timeout_env_error timeout_env_error, where rest = "[]" and low = low]
    by (auto simp: started_fields)
qed

text \<open>
  C2, amended. In a run of five iterations with status \<open>Error\<close> that starts from an
  error counter of zero and whose sleeps end undisturbed, the sleep time computed in the
  k-th iteration is min(60 * 2^k, 3600), that is 120, 240, 480, 960, 1920; the loop
  sleeps 120, 240, 480 and 960 seconds after the first four errors and is left at the
  fifth, before its sleep and before any further fetch.
\<close>

theorem error_backoff:
  assumes "consecutive_errors s = 0"
    and "\<forall>env\<in>set [e1, e2, e3, e4, e5].
           check_ticket_availability low (http env) = ''Error'' \<and> sleeping env = Slept"
  shows "(\<exists>s'. main_loop low (e1 # e2 # e3 # e4 # e5 # rest) s = (Exited, s') \<and>
            consecutive_errors s' = 5 \<and>
            sleeps (trace (wld s')) = sleeps (trace (wld s)) @ [120, 240, 480, 960] \<and>
            fetches (trace (wld s')) = fetches (trace (wld s)) + 5) \<and>
         backoff ''Error'' k = (k + 1, min (60 * 2 ^ (k + 1)) 3600) \<and>
         map (backoff ''Error'') [0, 1, 2, 3, 4] =
           [(1, 120), (2, 240), (3, 480), (4, 960), (5, 1920)]"
proof -
  from assms(2) have e: "check_ticket_availability low (http e1) = ''Error''" "sleeping e1 = Slept"
    "check_ticket_availability low (http e2) = ''Error''" "sleeping e2 = Slept"
    "check_ticket_availability low (http e3) = ''Error''" "sleeping e3 = Slept"
    "check_ticket_availability low (http e4) = ''Error''" "sleeping e4 = Slept"
    "check_ticket_availability low (http e5) = ''Error''" "sleeping e5 = Slept"
    by simp_all
  have "backoff ''Error'' j = (j + 1, min (60 * 2 ^ (j + 1)) 3600)" for j
    by (simp add: backoff_def)
  then show ?thesis
    using five_errors [OF assms(1) e, of rest] by simp
qed

theorem error_backoff_witness:
  "consecutive_errors started = 0 \<and>
   check_ticket_availability latin1_lowering (http timeout_env) = ''Error'' \<and> sleeping timeout_env = Slept \<and>
   (\<exists>s'. main_loop latin1_lowering [timeout_env, timeout_env, timeout_env, timeout_env, timeout_env] started =
            (Exited, s') \<and>
          consecutive_errors s' = 5 \<and>
          sleeps (trace (wld s')) = [120, 240, 480, 960] \<and>
          fetches (trace (wld s')) = 5)"
  using error_backoff [of started timeout_env timeout_env timeout_env timeout_env timeout_env
      latin1_lowering "[]" 0]
  by (simp add: started_fields timeout_env_error)

text \<open>
  C4 fails on the code. Three timeouts bring the counter to 3; the fourth brings it to 4
  and the sleep that follows is ended by an exception, so the handler of line 179
  brings it to 5. The loop is not left: it is about to start the next iteration, and
  that iteration fetches the page a fifth time.
\<close>

theorem handler_counts_to_five_and_continues:
  "fst (main_loop low [timeout_env, timeout_env, timeout_env, cancelled_env] started) = Running \<and>
   consecutive_errors
     (snd (main_loop low [timeout_env, timeout_env, timeout_env, cancelled_env] started)) = 5 \<and>
   fetches (trace (wld (snd (main_loop low
     [timeout_env, timeout_env, timeout_env, cancelled_env, unchanged_env] started)))) = 5"
proof -
  obtain s1 where 1: "iteration low timeout_env started = (Continue, s1)"
    "consecutive_errors s1 = 1" "fetches (trace (wld s1)) = 1"
    using iteration_error [OF timeout_env_error, where s = started and low = low] by (auto simp: started_fields)
  obtain s2 where 2: "iteration low timeout_env s1 = (Continue, s2)"
    "consecutive_errors s2 = 2" "fetches (trace (wld s2)) = 2"
    using iteration_error [OF timeout_env_error, where s = s1 and low = low] 1 by auto
  obtain s3 where 3: "iteration low timeout_env s2 = (Continue, s3)"
    "consecutive_errors s3 = 3" "fetches (trace (wld s3)) = 3"
    using iteration_error [OF timeout_env_error, where s = s2 and low = low] 2 by auto
  obtain s4 where 4: "iteration low cancelled_env s3 = (Continue, s4)"
    "consecutive_errors s4 = 5" "fetches (trace (wld s4)) = 4"
    using iteration_error_raised [OF cancelled_env_error, where s = s3 and low = low] 3 by auto
  have a: "main_loop low [timeout_env, timeout_env, timeout_env, cancelled_env] started =
      (Running, s4)"
    using 1(1) 2(1) 3(1) 4(1) by simp
  have "snd (main_loop low [timeout_env, timeout_env, timeout_env, cancelled_env, unchanged_env]
      started) = snd (iteration low unchanged_env s4)"
    using 1(1) 2(1) 3(1) 4(1) by (simp split: prod.splits control.splits)
  then have "fetches (trace (wld (snd (main_loop low
      [timeout_env, timeout_env, timeout_env, cancelled_env, unchanged_env] started)))) = 5"
    using iteration_fetches [of low unchanged_env s4] 4(3) by simp
  with a 4(2) show ?thesis by simp
qed

text \<open>
  C8. When the last status is \<open>Tickets Not Available\<close> and the check returns
  \<open>Tickets Potentially Available\<close>, the iteration calls the notifier once, with
  \<open>force\<close> false, calls \<open>write_current_status\<close> once, with the new status, and sets
  the last status in memory to it; the status file holds the new status when the write
  succeeds.
\<close>

theorem transition_to_available:
  assumes "last_status s = Some ''Tickets Not Available''"
    and "check_ticket_availability low (http env) = ''Tickets Potentially Available''"
  shows "notify_calls (trace (wld (snd (iteration low env s)))) =
           notify_calls (trace (wld s)) @ [(''Tickets Potentially Available'', False)] \<and>
         status_writes (trace (wld (snd (iteration low env s)))) =
           status_writes (trace (wld s)) @ [''Tickets Potentially Available''] \<and>
         last_status (snd (iteration low env s)) = Some ''Tickets Potentially Available'' \<and>
         (status_write env = IoOk \<longrightarrow>
            status_file (wld (snd (iteration low env s))) = Content ''Tickets Potentially Available'')"
  using assms
  by (simp add: iteration_def Let_def backoff_def max_consecutive_errors_def trace_simps
      write_status_ok split: sleep_outcome.splits)

theorem transition_to_available_witness:
  "last_status started = Some ''Tickets Not Available'' \<and>
   check_ticket_availability latin1_lowering (http available_env) = ''Tickets Potentially Available'' \<and>
   status_write available_env = IoOk \<and>
   notify_calls (trace (wld (snd (iteration latin1_lowering available_env started)))) =
     [(''Tickets Potentially Available'', False)] \<and>
   status_writes (trace (wld (snd (iteration latin1_lowering available_env started)))) =
     [''Tickets Potentially Available''] \<and>
   last_status (snd (iteration latin1_lowering available_env started)) = Some ''Tickets Potentially Available'' \<and>
   status_file (wld (snd (iteration latin1_lowering available_env started))) =
     Content ''Tickets Potentially Available''"
proof -
  have c: "check_ticket_availability latin1_lowering (http available_env) = ''Tickets Potentially Available''"
    by code_simp
  have w: "status_write available_env = IoOk"
    by (simp add: available_env_def)
  show ?thesis
    using transition_to_available [OF started_fields(3) c] c w
    by (simp add: started_fields)
qed

section \<open>The start of the program\<close>

lemma send_agree:
  assumes "notification_file w = notification_file v" and "trace w = trace v"
  shows "notification_file (send_telegram_notification env m f w) =
           notification_file (send_telegram_notification env m f v) \<and>
         trace (send_telegram_notification env m f w) =
           trace (send_telegram_notification env m f v)"
  using assms
  by (simp add: send_telegram_notification_def notify_body_def Let_def emit_def
      write_last_notification_time_def split: sum.splits option.splits io_outcome.splits)

lemma iteration_agree:
  assumes "same_apart_from_status_file s t"
  shows "fst (iteration low env s) = fst (iteration low env t) \<and>
         same_apart_from_status_file (snd (iteration low env s)) (snd (iteration low env t))"
proof -
  from assms have a: "consecutive_errors s = consecutive_errors t" "last_status s = last_status t"
    "notification_file (wld s) = notification_file (wld t)" "trace (wld s) = trace (wld t)"
    by (simp_all add: same_apart_from_status_file_def)
  have n: "notification_file (send_telegram_notification (notifier env) m f
               (emit (NotifyCall m f) (emit Fetch (wld s)))) =
           notification_file (send_telegram_notification (notifier env) m f
               (emit (NotifyCall m f) (emit Fetch (wld t))))" for f m
    using a by (intro send_agree [THEN conjunct1]) (simp_all add: emit_def)
  have tr: "trace (send_telegram_notification (notifier env) m f
               (emit (NotifyCall m f) (emit Fetch (wld s)))) =
           trace (send_telegram_notification (notifier env) m f
               (emit (NotifyCall m f) (emit Fetch (wld t))))" for f m
    using a by (intro send_agree [THEN conjunct2]) (simp_all add: emit_def)
  show ?thesis
    using a(1,2)
    by (simp add: iteration_def Let_def backoff_def max_consecutive_errors_def
        same_apart_from_status_file_def write_status_trace write_status_notification_file
        n tr emit_trace emit_notification_file split: sleep_outcome.splits)
qed

lemma main_loop_agree:
  "same_apart_from_status_file s t \<Longrightarrow>
     fst (main_loop low envs s) = fst (main_loop low envs t) \<and>
     same_apart_from_status_file (snd (main_loop low envs s)) (snd (main_loop low envs t))"
proof (induction envs arbitrary: s t)
  case Nil
  then show ?case by simp
next
  case (Cons env envs)
  obtain c s' where s: "iteration low env s = (c, s')" by (cases "iteration low env s")
  obtain d t' where t: "iteration low env t = (d, t')" by (cases "iteration low env t")
  from iteration_agree [OF Cons.prems, of low env] s t
  have cd: "c = d" and st: "same_apart_from_status_file s' t'" by simp_all
  show ?case
  proof (cases c)
    case Continue
    then show ?thesis using s t cd Cons.IH [OF st] by simp
  next
    case Break
    then show ?thesis using s t cd st by simp
  qed
qed

text \<open>
  C9. Reading the last status gives the sentinel \<open>None\<close> when the status file is
  absent, and also when it cannot be read: the exception stays inside
  \<open>read_last_status\<close>. A run that starts with an unreadable status file goes as the
  run with no status file under the same answers of the environment: the same exit, the
  same calls, the same error counter and last status.
\<close>

theorem unreadable_status_file_as_first_run:
  "read_status_file Absent = Inr None \<and>
   read_status_file Unreadable = Inl IOError \<and>
   read_last_status Absent = None \<and>
   read_last_status Unreadable = None \<and>
   (status_file w = Unreadable \<longrightarrow>
      fst (main low envs w) = fst (main low envs (w\<lparr>status_file := Absent\<rparr>)) \<and>
      same_apart_from_status_file (snd (main low envs w))
        (snd (main low envs (w\<lparr>status_file := Absent\<rparr>))))"
proof -
  have "same_apart_from_status_file
      \<lparr>wld = w, consecutive_errors = 0, last_status = None\<rparr>
      \<lparr>wld = w\<lparr>status_file := Absent\<rparr>, consecutive_errors = 0, last_status = None\<rparr>"
    by (simp add: same_apart_from_status_file_def)
  from main_loop_agree [OF this, of low envs]
  show ?thesis
    by (simp add: main_def read_last_status_def read_status_file_def)
qed

theorem unreadable_status_file_as_first_run_witness:
  "status_file (recent_world\<lparr>status_file := Unreadable\<rparr>) = Unreadable \<and>
   fst (main latin1_lowering [unchanged_env] (recent_world\<lparr>status_file := Unreadable\<rparr>)) =
     fst (main latin1_lowering [unchanged_env] (recent_world\<lparr>status_file := Absent\<rparr>)) \<and>
   same_apart_from_status_file
     (snd (main latin1_lowering [unchanged_env] (recent_world\<lparr>status_file := Unreadable\<rparr>)))
     (snd (main latin1_lowering [unchanged_env] (recent_world\<lparr>status_file := Absent\<rparr>)))"
  using unreadable_status_file_as_first_run
      [of "recent_world\<lparr>status_file := Unreadable\<rparr>" latin1_lowering "[unchanged_env]"]
  by simp

end
